theory Spec2Isabelle
  imports Main "HOL-Library.Word"
begin

unbundle bit_operations_syntax

section \<open>Types of keyboard.c\<close>

type_synonym UCHAR = "8 word"
type_synonym ULONG = "32 word"

text \<open>The two status values keyboard.c returns; \<open>NT_SUCCESS\<close> holds of the first only.\<close>

datatype NTSTATUS = STATUS_SUCCESS | STATUS_UNSUCCESSFUL

definition NT_SUCCESS :: "NTSTATUS \<Rightarrow> bool" where
  "NT_SUCCESS r = (r = STATUS_SUCCESS)"

text \<open>
  Modelled from the spec: \<open>KEYBOARD_STATUS\<close> is declared in keyboard.h, which is not among
  the sources; keyboard.c assigns \<open>TRUE\<close>/\<open>FALSE\<close> to its four fields
  \<open>lctrl\<close>, \<open>lshift\<close>, \<open>rshift\<close>, \<open>lalt\<close>, the four independent booleans of the spec.
\<close>

record KEYBOARD_STATUS =
  lctrl :: bool
  lshift :: bool
  rshift :: bool
  lalt :: bool

text \<open>
  The globals the translator touches: \<open>keyboard_status\<close> (line 77) and the table
  \<open>scancodes_map\<close> of scancode.h, indexed by an \<open>UCHAR\<close>, with bytes as entries. The
  table's contents are not among the sources, so it is a component of the state that every
  theorem quantifies over.
\<close>

record globals =
  keyboard_status :: KEYBOARD_STATUS
  scancodes_map :: "UCHAR \<Rightarrow> UCHAR"

section \<open>Macros\<close>

definition POLL_STATUS_ITERATIONS :: ULONG where
  "POLL_STATUS_ITERATIONS = 12000"

definition KEYB_STATUS_OBUFFER_FULL :: UCHAR where
  "KEYB_STATUS_OBUFFER_FULL = push_bit 0 1"

definition KEYB_STATUS_IBUFFER_FULL :: UCHAR where
  "KEYB_STATUS_IBUFFER_FULL = push_bit 1 1"

definition KEYB_STATUS_TRANSMIT_TIMEOUT :: UCHAR where
  "KEYB_STATUS_TRANSMIT_TIMEOUT = push_bit 5 1"

definition KEYB_STATUS_PARITY_ERROR :: UCHAR where
  "KEYB_STATUS_PARITY_ERROR = push_bit 7 1"

definition KEYB_COMMAND_WRITE_OUTPUT :: UCHAR where
  "KEYB_COMMAND_WRITE_OUTPUT = 0xd2"

definition KEYB_COMMAND_DISABLE_KEYBOARD :: UCHAR where
  "KEYB_COMMAND_DISABLE_KEYBOARD = 0xad"

definition KEYB_COMMAND_ENABLE_KEYBOARD :: UCHAR where
  "KEYB_COMMAND_ENABLE_KEYBOARD = 0xae"

definition KEYB_COMMAND_DISABLE_MOUSE :: UCHAR where
  "KEYB_COMMAND_DISABLE_MOUSE = 0xa7"

definition KEYB_COMMAND_ENABLE_MOUSE :: UCHAR where
  "KEYB_COMMAND_ENABLE_MOUSE = 0xa8"

definition SCANCODE_RELEASE_FLAG :: UCHAR where
  "SCANCODE_RELEASE_FLAG = 0x80"

definition IS_SCANCODE_RELEASE :: "UCHAR \<Rightarrow> bool" where
  "IS_SCANCODE_RELEASE c = (c AND 0x80 \<noteq> 0)"

section \<open>The scancode translator\<close>

text \<open>
  Modelled from the spec: \<open>vmm_toupper\<close> is declared in vmmstring.h, which is not among the
  sources; the spec calls it the case-folding utility that gives the uppercase form. It maps
  \<open>a\<close>..\<open>z\<close> (0x61..0x7a) to \<open>A\<close>..\<open>Z\<close> and leaves every other byte alone.
\<close>

definition vmm_toupper :: "UCHAR \<Rightarrow> UCHAR" where
  "vmm_toupper b = (if 0x61 \<le> b \<and> b \<le> 0x7a then b - 0x20 else b)"

text \<open>
  The first switch (lines 181-200), on \<open>c & ~SCANCODE_RELEASE_FLAG\<close>: the value of
  \<open>handled\<close> after it, and the latches after it.
\<close>

definition modifier_switch :: "UCHAR \<Rightarrow> KEYBOARD_STATUS \<Rightarrow> bool \<times> KEYBOARD_STATUS" where
  "modifier_switch c ks =
     (let b = c AND NOT SCANCODE_RELEASE_FLAG in
      if b = 0x1d then (True, ks\<lparr>lctrl := (if IS_SCANCODE_RELEASE c then False else True)\<rparr>)
      else if b = 0x2a then (True, ks\<lparr>lshift := (if IS_SCANCODE_RELEASE c then False else True)\<rparr>)
      else if b = 0x36 then (True, ks\<lparr>rshift := (if IS_SCANCODE_RELEASE c then False else True)\<rparr>)
      else if b = 0x38 then (True, ks\<lparr>lalt := (if IS_SCANCODE_RELEASE c then False else True)\<rparr>)
      else (False, ks))"

text \<open>The second switch (lines 210-220): whether one of its eight case labels matches.\<close>

definition ignore_switch :: "UCHAR \<Rightarrow> bool" where
  "ignore_switch c =
     (c = 0x00 \<or> c = 0xaa \<or> c = 0xee \<or> c = 0xfa \<or> c = 0xfc \<or> c = 0xfd \<or> c = 0xfe \<or> c = 0xff)"

text \<open>
  The third switch (lines 228-249), on the table entry: \<open>Some r\<close> when a case returns
  \<open>r\<close>, \<open>None\<close> when no label matches and control falls out of the switch.
  The labels are the characters 1 2 3 4 5 6 7 8 9 0 (0x31..0x39, 0x30); the values returned
  are the characters of the US keymap above them (0x21 0x40 0x23 0x24 0x25 0x5e 0x26 0x2a
  0x28 0x29).
\<close>

definition digit_switch :: "UCHAR \<Rightarrow> UCHAR option" where
  "digit_switch m =
     (if m = 0x31 then Some 0x21
      else if m = 0x32 then Some 0x40
      else if m = 0x33 then Some 0x23
      else if m = 0x34 then Some 0x24
      else if m = 0x35 then Some 0x25
      else if m = 0x36 then Some 0x5e
      else if m = 0x37 then Some 0x26
      else if m = 0x38 then Some 0x2a
      else if m = 0x39 then Some 0x28
      else if m = 0x30 then Some 0x29
      else None)"

text \<open>The \<open>return\<close> statement at which a call of the translator leaves the function.\<close>

datatype return_site =
    RET_MODIFIER  \<comment> \<open>line 203, after the first switch\<close>
  | RET_RELEASE   \<comment> \<open>line 207, any other released key\<close>
  | RET_IGNORED   \<comment> \<open>line 223, after the second switch\<close>
  | RET_DIGIT     \<comment> \<open>lines 230-248, inside the third switch\<close>
  | RET_UPPER     \<comment> \<open>line 253\<close>
  | RET_PLAIN     \<comment> \<open>line 255\<close>

text \<open>
  The table lookup and the shift rules (lines 226-255), reached when neither of the first two
  switches nor the release test has returned.
\<close>

definition keycode_lookup :: "UCHAR \<Rightarrow> globals \<Rightarrow> return_site \<times> UCHAR" where
  "keycode_lookup c g =
     (let m = scancodes_map g c;
          shift = (lshift (keyboard_status g) \<or> rshift (keyboard_status g))
      in case (if shift \<and> m > 0x2f \<and> m < 0x3a then digit_switch m else None) of
           Some r \<Rightarrow> (RET_DIGIT, r)
         | None \<Rightarrow>
             if shift \<and> m < 0x7b \<and> m > 0x60 then (RET_UPPER, vmm_toupper m)
             else (RET_PLAIN, m))"

text \<open>
  \<open>KeyboardScancodeToKeycode\<close> (lines 170-256) with the global state passed in and
  returned, and the return statement taken recorded beside the result.
\<close>

definition KeyboardScancodeToKeycode_at ::
    "UCHAR \<Rightarrow> globals \<Rightarrow> return_site \<times> UCHAR \<times> globals" where
  "KeyboardScancodeToKeycode_at c g =
     (let (handled, ks) = modifier_switch c (keyboard_status g);
          g1 = g\<lparr>keyboard_status := ks\<rparr>
      in if handled then (RET_MODIFIER, 0, g1)
         else if IS_SCANCODE_RELEASE c then (RET_RELEASE, 0, g1)
         else if ignore_switch c then (RET_IGNORED, 0, g1)
         else (fst (keycode_lookup c g1), snd (keycode_lookup c g1), g1))"

definition KeyboardScancodeToKeycode :: "UCHAR \<Rightarrow> globals \<Rightarrow> UCHAR \<times> globals" where
  "KeyboardScancodeToKeycode c g = snd (KeyboardScancodeToKeycode_at c g)"

section \<open>Port I/O\<close>

text \<open>
  Modelled from the spec: the register addresses \<open>KEYB_REGISTER_STATUS\<close>,
  \<open>KEYB_REGISTER_COMMAND\<close> and \<open>KEYB_REGISTER_DATA\<close> are defined in keyboard.h, which is
  not among the sources. There are two ports: the data port (60h, read and written) and the
  status/command port (64h: a read gives the status, a write is a command).
\<close>

datatype PORT = PORT_60 | PORT_64

definition KEYB_REGISTER_DATA :: PORT where
  "KEYB_REGISTER_DATA = PORT_60"

definition KEYB_REGISTER_STATUS :: PORT where
  "KEYB_REGISTER_STATUS = PORT_64"

definition KEYB_REGISTER_COMMAND :: PORT where
  "KEYB_REGISTER_COMMAND = PORT_64"

text \<open>
  What the controller delivers: \<open>status_in k\<close> is the byte the \<open>k\<close>-th read of the status
  port returns, \<open>data_in k\<close> the byte the \<open>k\<close>-th read of the data port returns (counted
  from 0). Every behaviour of the hardware is one such pair of sequences.
\<close>

record controller =
  status_in :: "nat \<Rightarrow> UCHAR"
  data_in :: "nat \<Rightarrow> UCHAR"

text \<open>
  What the driver has done so far: the number of reads of each port, the time stalled (the
  sum of the arguments of \<open>KeStallExecutionProcessor\<close>), and the bytes written, oldest first.
\<close>

record io =
  status_reads :: nat
  data_reads :: nat
  stalled :: nat
  port_writes :: "(PORT \<times> UCHAR) list"

definition READ_PORT_UCHAR :: "controller \<Rightarrow> PORT \<Rightarrow> io \<Rightarrow> UCHAR \<times> io" where
  "READ_PORT_UCHAR hw p s =
     (case p of
        PORT_64 \<Rightarrow> (status_in hw (status_reads s), s\<lparr>status_reads := status_reads s + 1\<rparr>)
      | PORT_60 \<Rightarrow> (data_in hw (data_reads s), s\<lparr>data_reads := data_reads s + 1\<rparr>))"

definition WRITE_PORT_UCHAR :: "PORT \<Rightarrow> UCHAR \<Rightarrow> io \<Rightarrow> io" where
  "WRITE_PORT_UCHAR p v s = s\<lparr>port_writes := port_writes s @ [(p, v)]\<rparr>"

definition KeStallExecutionProcessor :: "nat \<Rightarrow> io \<Rightarrow> io" where
  "KeStallExecutionProcessor n s = s\<lparr>stalled := stalled s + n\<rparr>"

subsection \<open>\<open>i8042ReadKeyboardData\<close> (lines 90-109)\<close>

text \<open>
  The cells \<open>*pc\<close> and \<open>*pisMouse\<close> are passed in with their contents before the call and
  returned with their contents after it.
\<close>

definition i8042ReadKeyboardData ::
    "controller \<Rightarrow> UCHAR \<Rightarrow> bool \<Rightarrow> io \<Rightarrow> NTSTATUS \<times> UCHAR \<times> bool \<times> io" where
  "i8042ReadKeyboardData hw pc pisMouse s =
     (let (port_status, s1) = READ_PORT_UCHAR hw KEYB_REGISTER_STATUS s in
      if port_status AND KEYB_STATUS_OBUFFER_FULL \<noteq> 0 then
        let (pc1, s2) = READ_PORT_UCHAR hw KEYB_REGISTER_DATA s1 in
        if port_status AND KEYB_STATUS_PARITY_ERROR = 0
        then (STATUS_SUCCESS, pc1, port_status AND KEYB_STATUS_TRANSMIT_TIMEOUT \<noteq> 0, s2)
        else (STATUS_UNSUCCESSFUL, pc1, pisMouse, s2)
      else (STATUS_UNSUCCESSFUL, pc, pisMouse, s1))"

subsection \<open>\<open>i8042WriteKeyboardData\<close> (lines 111-127)\<close>

text \<open>
  The \<open>while\<close> loop of lines 116-119. Its condition reads the status port, and only when
  the input-buffer-full bit is set does it evaluate \<open>counter--\<close>: the test is on the old
  value, and the decrement of the unsigned 32-bit counter happens also when the old value is
  0. The result is the counter and the I/O state when the loop is left.
\<close>

function write_wait :: "controller \<Rightarrow> ULONG \<Rightarrow> io \<Rightarrow> ULONG \<times> io" where
  "write_wait hw counter s =
     (let (port_status, s1) = READ_PORT_UCHAR hw KEYB_REGISTER_STATUS s in
      if KEYB_STATUS_IBUFFER_FULL AND port_status \<noteq> 0 then
        if counter \<noteq> 0 then write_wait hw (counter - 1) (KeStallExecutionProcessor 1 s1)
        else (counter - 1, s1)
      else (counter, s1))"
  by pat_completeness auto
termination
  by (relation "measure (\<lambda>(hw, counter, s). unat counter)") (auto simp: unat_minus_one unat_gt_0)

declare write_wait.simps [simp del]

definition i8042WriteKeyboardData :: "controller \<Rightarrow> PORT \<Rightarrow> UCHAR \<Rightarrow> io \<Rightarrow> bool \<times> io" where
  "i8042WriteKeyboardData hw addr data s =
     (let (counter, s1) = write_wait hw POLL_STATUS_ITERATIONS s in
      if counter \<noteq> 0 then (True, WRITE_PORT_UCHAR addr data s1)
      else (False, s1))"

subsection \<open>\<open>KeyboardReadKeystroke\<close> (lines 130-166)\<close>

text \<open>
  The \<open>while (counter)\<close> loop of lines 137-149, on the variables it changes: the counter,
  the local \<open>scancode\<close>, the cell \<open>*pisMouse\<close> and the I/O state. The byte read into
  \<open>port_status\<close> at line 138 is not used; the read itself happens.
\<close>

function read_poll ::
    "controller \<Rightarrow> ULONG \<Rightarrow> UCHAR \<Rightarrow> bool \<Rightarrow> io \<Rightarrow> ULONG \<times> UCHAR \<times> bool \<times> io" where
  "read_poll hw counter scancode pisMouse s =
     (if counter \<noteq> 0 then
        let (port_status, s1) = READ_PORT_UCHAR hw KEYB_REGISTER_STATUS s;
            (r, scancode1, pisMouse1, s2) = i8042ReadKeyboardData hw scancode pisMouse s1
        in if NT_SUCCESS r then (counter, scancode1, pisMouse1, s2)
           else read_poll hw (counter - 1) scancode1 pisMouse1 (KeStallExecutionProcessor 1 s2)
      else (counter, scancode, pisMouse, s))"
  by pat_completeness auto
termination
  by (relation "measure (\<lambda>(hw, counter, scancode, pisMouse, s). unat counter)")
    (auto simp: unat_minus_one unat_gt_0)

declare read_poll.simps [simp del]

text \<open>
  The echo of lines 157-160: four calls of \<open>i8042WriteKeyboardData\<close>, whose results are
  dropped.
\<close>

definition unget_replay :: "controller \<Rightarrow> UCHAR \<Rightarrow> io \<Rightarrow> io" where
  "unget_replay hw scancode s =
     (let s1 = snd (i8042WriteKeyboardData hw KEYB_REGISTER_COMMAND KEYB_COMMAND_DISABLE_KEYBOARD s);
          s2 = snd (i8042WriteKeyboardData hw KEYB_REGISTER_COMMAND KEYB_COMMAND_WRITE_OUTPUT s1);
          s3 = snd (i8042WriteKeyboardData hw KEYB_REGISTER_DATA scancode s2)
      in snd (i8042WriteKeyboardData hw KEYB_REGISTER_COMMAND KEYB_COMMAND_ENABLE_KEYBOARD s3))"

text \<open>
  The local \<open>scancode\<close> is not initialised at line 133: its first content is the
  argument \<open>scancode0\<close>. \<open>*pc\<close> is written at line 163 only.
\<close>

definition KeyboardReadKeystroke ::
    "controller \<Rightarrow> UCHAR \<Rightarrow> UCHAR \<Rightarrow> bool \<Rightarrow> UCHAR \<Rightarrow> io \<Rightarrow> NTSTATUS \<times> UCHAR \<times> bool \<times> io" where
  "KeyboardReadKeystroke hw pc unget pisMouse scancode0 s =
     (let (counter, scancode, pisMouse1, s1) =
            read_poll hw POLL_STATUS_ITERATIONS scancode0 pisMouse s
      in if counter = 0 then (STATUS_UNSUCCESSFUL, pc, pisMouse1, s1)
         else
           let s2 = (if unget \<noteq> 0 then unget_replay hw scancode s1 else s1)
           in (STATUS_SUCCESS, scancode, pisMouse1, s2))"

subsection \<open>\<open>KeyboardSetMouse\<close> (lines 258-267) and \<open>KeyboardInit\<close> (lines 269-274)\<close>

definition KeyboardSetMouse :: "controller \<Rightarrow> bool \<Rightarrow> io \<Rightarrow> NTSTATUS \<times> io" where
  "KeyboardSetMouse hw enabled s =
     (let cmd = (if enabled then KEYB_COMMAND_ENABLE_MOUSE else KEYB_COMMAND_DISABLE_MOUSE);
          s1 = snd (i8042WriteKeyboardData hw KEYB_REGISTER_COMMAND cmd s)
      in (STATUS_SUCCESS, s1))"

text \<open>
  Modelled from the spec: \<open>init_scancodes_map\<close> is declared in scancode.h and defined
  outside the sources. It is the only statement of \<open>KeyboardInit\<close> besides the
  \<open>return\<close>, so what the spec says of Init is said of it: it loads the external scancode
  map (the table \<open>tbl\<close> of the external collaborator) and sets the modifier latches to
  all-false.
\<close>

definition init_scancodes_map :: "(UCHAR \<Rightarrow> UCHAR) \<Rightarrow> globals \<Rightarrow> globals" where
  "init_scancodes_map tbl g =
     g\<lparr>scancodes_map := tbl,
       keyboard_status := \<lparr>lctrl = False, lshift = False, rshift = False, lalt = False\<rparr>\<rparr>"

definition KeyboardInit :: "(UCHAR \<Rightarrow> UCHAR) \<Rightarrow> globals \<Rightarrow> NTSTATUS \<times> globals" where
  "KeyboardInit tbl g = (STATUS_SUCCESS, init_scancodes_map tbl g)"

text \<open>A sequence of translations, one call of the translator for each byte in turn.\<close>

definition translate_all :: "UCHAR list \<Rightarrow> globals \<Rightarrow> globals" where
  "translate_all cs g = fold (\<lambda>c g'. snd (KeyboardScancodeToKeycode c g')) cs g"

section \<open>Vocabulary of the specification\<close>

text \<open>
  The base code of a byte is the byte with the release bit 0x80 stripped; the modifier set
  is fixed, and each of its codes has its own latch.
\<close>

definition base_code :: "UCHAR \<Rightarrow> UCHAR" where
  "base_code c = c AND 0x7f"

definition modifier_codes :: "UCHAR set" where
  "modifier_codes = {0x1d, 0x2a, 0x36, 0x38}"

definition latch_of :: "UCHAR \<Rightarrow> KEYBOARD_STATUS \<Rightarrow> bool" where
  "latch_of b ks =
     (if b = 0x1d then lctrl ks else if b = 0x2a then lshift ks
      else if b = 0x36 then rshift ks else lalt ks)"

definition latch_update :: "UCHAR \<Rightarrow> bool \<Rightarrow> KEYBOARD_STATUS \<Rightarrow> KEYBOARD_STATUS" where
  "latch_update b v ks =
     (if b = 0x1d then ks\<lparr>lctrl := v\<rparr> else if b = 0x2a then ks\<lparr>lshift := v\<rparr>
      else if b = 0x36 then ks\<lparr>rshift := v\<rparr> else ks\<lparr>lalt := v\<rparr>)"

text \<open>
  The fixed correspondence of the digit row: 1 and !, 2 and the at sign, 3 and #, 4 and the
  dollar sign, 5 and the percent sign, 6 and the caret, 7 and the ampersand, 8 and *,
  9 and (, 0 and ).
\<close>

definition shifted_digit :: "UCHAR \<Rightarrow> UCHAR" where
  "shifted_digit b =
     (if b = 0x31 then 0x21 else if b = 0x32 then 0x40 else if b = 0x33 then 0x23
      else if b = 0x34 then 0x24 else if b = 0x35 then 0x25 else if b = 0x36 then 0x5e
      else if b = 0x37 then 0x26 else if b = 0x38 then 0x2a else if b = 0x39 then 0x28
      else 0x29)"

text \<open>Reading a status byte: the bits the two polling loops decide on.\<close>

definition ibuffer_full :: "controller \<Rightarrow> nat \<Rightarrow> bool" where
  "ibuffer_full hw i = (KEYB_STATUS_IBUFFER_FULL AND status_in hw i \<noteq> 0)"

definition obuffer_full :: "UCHAR \<Rightarrow> bool" where
  "obuffer_full st = (st AND KEYB_STATUS_OBUFFER_FULL \<noteq> 0)"

definition read_succeeds :: "UCHAR \<Rightarrow> bool" where
  "read_succeeds st =
     (st AND KEYB_STATUS_OBUFFER_FULL \<noteq> 0 \<and> st AND KEYB_STATUS_PARITY_ERROR = 0)"

definition mouse_flag :: "UCHAR \<Rightarrow> bool" where
  "mouse_flag st = (st AND KEYB_STATUS_TRANSMIT_TIMEOUT \<noteq> 0)"

text \<open>
  A pass of the loop of \<open>KeyboardReadKeystroke\<close> reads the status port twice and decodes the
  second byte. When the loop starts after \<open>i\<close> reads of the status port, its \<open>j\<close>-th pass
  (from 0) decodes \<open>pass_status hw i j\<close>; \<open>data_taken hw i k\<close> counts the passes before the
  \<open>k\<close>-th that found the output buffer full, each of which read the data port once.
\<close>

definition pass_status :: "controller \<Rightarrow> nat \<Rightarrow> nat \<Rightarrow> UCHAR" where
  "pass_status hw i j = status_in hw (i + 2 * j + 1)"

definition data_taken :: "controller \<Rightarrow> nat \<Rightarrow> nat \<Rightarrow> nat" where
  "data_taken hw i k = length (filter (\<lambda>j. obuffer_full (pass_status hw i j)) [0..<k])"

subsection \<open>Concrete inputs\<close>

text \<open>
  The state at program load: \<open>keyboard_status\<close> is a global without initialiser, so all
  four latches are false. \<open>sample_map\<close> is a small table: scancode 0x02 is the key 1,
  scancode 0x1e the key a, every other scancode is unmapped.
\<close>

definition no_latch :: KEYBOARD_STATUS where
  "no_latch = \<lparr>lctrl = False, lshift = False, rshift = False, lalt = False\<rparr>"

definition sample_map :: "UCHAR \<Rightarrow> UCHAR" where
  "sample_map c = (if c = 0x02 then 0x31 else if c = 0x1e then 0x61 else 0)"

text \<open>A table that maps every scancode, 0x00 included, to the letter a (0x61).\<close>

definition letter_map :: "UCHAR \<Rightarrow> UCHAR" where
  "letter_map c = 0x61"

definition start_globals :: globals where
  "start_globals = \<lparr>keyboard_status = no_latch, scancodes_map = sample_map\<rparr>"

definition io_start :: io where
  "io_start = \<lparr>status_reads = 0, data_reads = 0, stalled = 0, port_writes = []\<rparr>"

text \<open>A controller whose input buffer stays full: every read of the status port gives 0x02.\<close>

definition stuck_controller :: controller where
  "stuck_controller = \<lparr>status_in = (\<lambda>_. 0x02), data_in = (\<lambda>_. 0)\<rparr>"

text \<open>
  A controller that has nothing at the first pass, a byte with a parity error at the second
  (status 0x81, data 0xff) and a mouse byte at the third (status 0x21, data 0x1e).
\<close>

definition busy_controller :: controller where
  "busy_controller =
     \<lparr>status_in = (\<lambda>i. if i < 2 then 0 else if i < 4 then 0x81 else 0x21),
      data_in = (\<lambda>i. if i = 0 then 0xff else 0x1e)\<rparr>"

text \<open>A controller that never has a byte.\<close>

definition silent_controller :: controller where
  "silent_controller = \<lparr>status_in = (\<lambda>_. 0), data_in = (\<lambda>_. 0)\<rparr>"

section \<open>The translator: the two switches\<close>

lemma strip_release: "(c::UCHAR) AND NOT 0x80 = c AND 0x7f"
proof -
  have "(NOT 0x80 :: UCHAR) = 0x7f" by simp
  then show ?thesis by (simp only:)
qed

lemma modifier_switch_latch:
  assumes "base_code c \<in> modifier_codes"
  shows "modifier_switch c ks = (True, latch_update (base_code c) (c AND 0x80 = 0) ks)"
  using assms
  unfolding modifier_switch_def SCANCODE_RELEASE_FLAG_def strip_release IS_SCANCODE_RELEASE_def
    base_code_def modifier_codes_def latch_update_def
  by (auto simp: Let_def)

lemma modifier_switch_other:
  assumes "base_code c \<notin> modifier_codes"
  shows "modifier_switch c ks = (False, ks)"
  using assms
  unfolding modifier_switch_def SCANCODE_RELEASE_FLAG_def strip_release
    base_code_def modifier_codes_def
  by (simp add: Let_def)

lemma at_modifier:
  assumes "base_code c \<in> modifier_codes"
  shows "KeyboardScancodeToKeycode_at c g =
           (RET_MODIFIER, 0,
            g\<lparr>keyboard_status := latch_update (base_code c) (c AND 0x80 = 0) (keyboard_status g)\<rparr>)"
  by (simp add: KeyboardScancodeToKeycode_at_def modifier_switch_latch [OF assms])

lemma at_other:
  assumes "base_code c \<notin> modifier_codes"
  shows "KeyboardScancodeToKeycode_at c g =
           (if IS_SCANCODE_RELEASE c then (RET_RELEASE, 0, g)
            else if ignore_switch c then (RET_IGNORED, 0, g)
            else (fst (keycode_lookup c g), snd (keycode_lookup c g), g))"
  by (simp add: KeyboardScancodeToKeycode_at_def modifier_switch_other [OF assms])

lemma base_code_idem: "base_code (base_code c) = base_code c"
  by (simp add: base_code_def)

lemma base_code_release: "base_code (c OR 0x80) = base_code c"
  unfolding base_code_def by (simp add: bit.conj_disj_distrib2)

lemma press_bit: "base_code c AND 0x80 = 0"
  unfolding base_code_def by (simp add: and.assoc)

lemma release_bit: "(c OR 0x80) AND 0x80 \<noteq> (0::UCHAR)"
  by (simp add: bit.conj_disj_distrib2)

lemma latch_of_update: "latch_of b (latch_update b v ks) = v"
  by (simp add: latch_of_def latch_update_def)

lemma latch_update_twice: "latch_update b v (latch_update b w ks) = latch_update b v ks"
  by (simp add: latch_update_def)

lemma ignore_switch_key_down: "\<not> IS_SCANCODE_RELEASE c \<Longrightarrow> ignore_switch c \<longleftrightarrow> c = 0"
  by (auto simp: ignore_switch_def IS_SCANCODE_RELEASE_def)

lemma ignore_labels_release:
  assumes "c \<in> {0xaa, 0xee, 0xfa, 0xfc, 0xfd, 0xfe, 0xff}"
  shows "IS_SCANCODE_RELEASE c"
  using assms by (auto simp: IS_SCANCODE_RELEASE_def)

lemma release_leaves_early:
  assumes "IS_SCANCODE_RELEASE c"
  shows "fst (KeyboardScancodeToKeycode_at c g) \<in> {RET_MODIFIER, RET_RELEASE}"
proof (cases "base_code c \<in> modifier_codes")
  case True
  then show ?thesis by (simp add: at_modifier)
next
  case False
  with assms show ?thesis by (simp add: at_other)
qed

lemma ignored_only_zero: "fst (KeyboardScancodeToKeycode_at c g) = RET_IGNORED \<longleftrightarrow> c = 0"
proof (cases "base_code c \<in> modifier_codes")
  case True
  then have "c \<noteq> 0" by (auto simp: base_code_def modifier_codes_def)
  with True show ?thesis by (simp add: at_modifier)
next
  case False
  show ?thesis
  proof (cases "IS_SCANCODE_RELEASE c")
    case True
    then have "c \<noteq> 0" by (auto simp: IS_SCANCODE_RELEASE_def)
    with True show ?thesis by (simp add: at_other [OF False])
  next
    case down: False
    have "fst (keycode_lookup c g) \<noteq> RET_IGNORED"
      by (simp add: keycode_lookup_def Let_def split: option.splits)
    with down show ?thesis
      by (simp add: at_other [OF False] ignore_switch_key_down)
  qed
qed

section \<open>The translator: the shift rules\<close>

lemma digit_range:
  assumes "0x2f < (m::UCHAR)" and "m < 0x3a"
  shows "m \<in> {0x30, 0x31, 0x32, 0x33, 0x34, 0x35, 0x36, 0x37, 0x38, 0x39}"
proof -
  from assms have "47 < unat m" and "unat m < 58"
    by (simp_all add: word_less_nat_alt)
  then have "unat m \<in> {48, 49, 50, 51, 52, 53, 54, 55, 56, 57}"
    by (simp; arith)
  then show ?thesis
    by (simp add: word_unat_eq_iff)
qed

lemma digit_switch_in_range:
  assumes "0x2f < m" and "m < 0x3a"
  shows "digit_switch m = Some (shifted_digit m)"
  using digit_range [OF assms] by (auto simp: digit_switch_def shifted_digit_def)

lemma vmm_toupper_letter:
  assumes "0x60 < b" and "b < 0x7b"
  shows "vmm_toupper b = b - 0x20"
proof -
  from assms have "0x61 \<le> b" and "b \<le> 0x7a"
    by (simp_all add: word_less_nat_alt word_le_nat_alt)
  then show ?thesis by (simp add: vmm_toupper_def)
qed

lemma keycode_lookup_value:
  "snd (keycode_lookup c g) =
     (let b = scancodes_map g c;
          shift = (lshift (keyboard_status g) \<or> rshift (keyboard_status g))
      in if shift \<and> 0x2f < b \<and> b < 0x3a then shifted_digit b
         else if shift \<and> 0x60 < b \<and> b < 0x7b then vmm_toupper b
         else b)"
proof (cases "(lshift (keyboard_status g) \<or> rshift (keyboard_status g)) \<and>
    0x2f < scancodes_map g c \<and> scancodes_map g c < 0x3a")
  case True
  then have "digit_switch (scancodes_map g c) = Some (shifted_digit (scancodes_map g c))"
    by (simp add: digit_switch_in_range)
  with True show ?thesis
    by (simp add: keycode_lookup_def Let_def)
next
  case False
  then show ?thesis
    by (auto simp add: keycode_lookup_def Let_def)
qed

section \<open>The claims about the translator\<close>

text \<open>
  C3. For every byte whose base code is one of 0x1d, 0x2a, 0x36, 0x38, the translator returns
  0 and changes exactly the latch of that code (leftCtrl, leftShift, rightShift, leftAlt):
  it becomes true when the release bit is absent and false when it is present. Pressing and
  then releasing a modifier returns 0 both times and leaves the state as it was but for that
  latch, which is false.
\<close>

theorem modifier_byte_sets_its_latch:
  assumes "base_code c \<in> modifier_codes"
  shows "KeyboardScancodeToKeycode c g =
           (0, g\<lparr>keyboard_status :=
                   latch_update (base_code c) (c AND 0x80 = 0) (keyboard_status g)\<rparr>) \<and>
         latch_of (base_code c) (keyboard_status (snd (KeyboardScancodeToKeycode c g))) =
           (c AND 0x80 = 0) \<and>
         fst (KeyboardScancodeToKeycode (base_code c) g) = 0 \<and>
         KeyboardScancodeToKeycode (base_code c OR 0x80)
             (snd (KeyboardScancodeToKeycode (base_code c) g)) =
           (0, g\<lparr>keyboard_status := latch_update (base_code c) False (keyboard_status g)\<rparr>)"
proof -
  have p: "base_code (base_code c) \<in> modifier_codes"
    and r: "base_code (base_code c OR 0x80) \<in> modifier_codes"
    using assms by (simp_all add: base_code_idem base_code_release)
  have one: "KeyboardScancodeToKeycode c g =
      (0, g\<lparr>keyboard_status :=
              latch_update (base_code c) (c AND 0x80 = 0) (keyboard_status g)\<rparr>)"
    by (simp add: KeyboardScancodeToKeycode_def at_modifier [OF assms])
  have press: "KeyboardScancodeToKeycode (base_code c) g =
      (0, g\<lparr>keyboard_status := latch_update (base_code c) True (keyboard_status g)\<rparr>)"
    by (simp add: KeyboardScancodeToKeycode_def at_modifier [OF p] base_code_idem press_bit)
  have release: "KeyboardScancodeToKeycode (base_code c OR 0x80)
        (g\<lparr>keyboard_status := latch_update (base_code c) True (keyboard_status g)\<rparr>) =
      (0, g\<lparr>keyboard_status := latch_update (base_code c) False (keyboard_status g)\<rparr>)"
    by (simp add: KeyboardScancodeToKeycode_def at_modifier [OF r] base_code_release
        base_code_idem release_bit latch_update_twice)
  show ?thesis
    by (simp add: one press release latch_of_update)
qed

theorem modifier_byte_sets_its_latch_witness:
  "base_code 0x2a \<in> modifier_codes \<and>
   KeyboardScancodeToKeycode 0x2a start_globals =
     (0, start_globals\<lparr>keyboard_status := no_latch\<lparr>lshift := True\<rparr>\<rparr>) \<and>
   KeyboardScancodeToKeycode 0xaa (snd (KeyboardScancodeToKeycode 0x2a start_globals)) =
     (0, start_globals)"
proof -
  have h: "base_code 0x2a \<in> modifier_codes"
    by (simp add: base_code_def modifier_codes_def)
  show ?thesis
    using h modifier_byte_sets_its_latch [OF h, of start_globals]
    by (clarsimp simp: base_code_def latch_update_def start_globals_def no_latch_def)
qed

text \<open>
  C4. For every byte whose base code is not in the modifier set, the translator leaves all
  four latches (and the rest of the state) unchanged; when such a byte has the release bit
  set, the translator also returns 0.
\<close>

theorem other_bytes_keep_latches:
  assumes "base_code c \<notin> modifier_codes"
  shows "keyboard_status (snd (KeyboardScancodeToKeycode c g)) = keyboard_status g \<and>
         snd (KeyboardScancodeToKeycode c g) = g \<and>
         (c AND 0x80 \<noteq> 0 \<longrightarrow> fst (KeyboardScancodeToKeycode c g) = 0)"
  by (simp add: KeyboardScancodeToKeycode_def at_other [OF assms] IS_SCANCODE_RELEASE_def)

theorem other_bytes_keep_latches_witness:
  "base_code 0x9e \<notin> modifier_codes \<and>
   KeyboardScancodeToKeycode 0x9e (start_globals\<lparr>keyboard_status := no_latch\<lparr>rshift := True\<rparr>\<rparr>) =
     (0, start_globals\<lparr>keyboard_status := no_latch\<lparr>rshift := True\<rparr>\<rparr>)"
proof -
  have h: "base_code 0x9e \<notin> modifier_codes"
    by (simp add: base_code_def modifier_codes_def)
  show ?thesis
    using h other_bytes_keep_latches
      [OF h, of "start_globals\<lparr>keyboard_status := no_latch\<lparr>rshift := True\<rparr>\<rparr>"]
    by (simp add: prod_eq_iff)
qed

text \<open>
  C5 fails at byte 0x00, a key-down byte outside the modifier set: line 211 returns 0 for it
  before the table is read. With a table that maps 0x00 to the letter a and no shift latch
  the claim gives the table entry 0x61; the translator gives 0.
\<close>

theorem key_down_zero_ignores_table:
  "(0x00::UCHAR) AND 0x80 = 0 \<and> base_code 0x00 \<notin> modifier_codes \<and>
   fst (KeyboardScancodeToKeycode 0x00 \<lparr>keyboard_status = no_latch, scancodes_map = letter_map\<rparr>) = 0 \<and>
   fst (KeyboardScancodeToKeycode 0x00 \<lparr>keyboard_status = no_latch, scancodes_map = letter_map\<rparr>) \<noteq>
     (let b = scancodes_map \<lparr>keyboard_status = no_latch, scancodes_map = letter_map\<rparr> 0x00;
          shift = (lshift no_latch \<or> rshift no_latch)
      in if shift \<and> 0x2f < b \<and> b < 0x3a then shifted_digit b
         else if shift \<and> 0x60 < b \<and> b < 0x7b then vmm_toupper b
         else b)"
proof -
  have other: "base_code 0x00 \<notin> modifier_codes"
    by (simp add: base_code_def modifier_codes_def)
  have "fst (KeyboardScancodeToKeycode 0x00
      \<lparr>keyboard_status = no_latch, scancodes_map = letter_map\<rparr>) = 0"
    by (simp add: KeyboardScancodeToKeycode_def at_other [OF other] IS_SCANCODE_RELEASE_def
        ignore_switch_def)
  with other show ?thesis
    by (simp add: letter_map_def no_latch_def)
qed

text \<open>
  C5, amended. For every key-down byte outside the modifier set other than 0x00: when
  leftShift or rightShift is latched and the table entry lies strictly between 0x2f and 0x3a,
  the translator returns the fixed substitute of the digit; else when a shift latch is set
  and the entry lies strictly between 0x60 and 0x7b, it returns the uppercase form; otherwise
  it returns the entry unchanged (0 when the scancode is unmapped). For byte 0x00 it returns
  0 whatever the table holds.
\<close>

theorem key_down_shift_rules:
  assumes "c AND 0x80 = 0" and "base_code c \<notin> modifier_codes" and "c \<noteq> 0"
  shows "fst (KeyboardScancodeToKeycode c g) =
           (let b = scancodes_map g c;
                shift = (lshift (keyboard_status g) \<or> rshift (keyboard_status g))
            in if shift \<and> 0x2f < b \<and> b < 0x3a then shifted_digit b
               else if shift \<and> 0x60 < b \<and> b < 0x7b then vmm_toupper b
               else b) \<and>
         fst (KeyboardScancodeToKeycode 0x00 g) = 0"
proof -
  from assms(1) have down: "\<not> IS_SCANCODE_RELEASE c"
    by (simp add: IS_SCANCODE_RELEASE_def)
  with assms(3) have "\<not> ignore_switch c"
    by (simp add: ignore_switch_key_down)
  with down have rules: "fst (KeyboardScancodeToKeycode c g) =
           (let b = scancodes_map g c;
                shift = (lshift (keyboard_status g) \<or> rshift (keyboard_status g))
            in if shift \<and> 0x2f < b \<and> b < 0x3a then shifted_digit b
               else if shift \<and> 0x60 < b \<and> b < 0x7b then vmm_toupper b
               else b)"
    by (simp only: KeyboardScancodeToKeycode_def at_other [OF assms(2)] if_False
        snd_conv fst_conv keycode_lookup_value)
  have other: "base_code 0x00 \<notin> modifier_codes"
    by (simp add: base_code_def modifier_codes_def)
  have zero: "fst (KeyboardScancodeToKeycode 0x00 g) = 0"
    by (simp add: KeyboardScancodeToKeycode_def at_other [OF other] IS_SCANCODE_RELEASE_def
        ignore_switch_def)
  from rules zero show ?thesis by simp
qed

theorem key_down_shift_rules_witness:
  "(0x02::UCHAR) AND 0x80 = 0 \<and> base_code 0x02 \<notin> modifier_codes \<and> (0x02::UCHAR) \<noteq> 0 \<and>
   fst (KeyboardScancodeToKeycode 0x02 (start_globals\<lparr>keyboard_status := no_latch\<lparr>lshift := True\<rparr>\<rparr>)) = 0x21 \<and>
   fst (KeyboardScancodeToKeycode 0x02 start_globals) = 0x31 \<and>
   fst (KeyboardScancodeToKeycode 0x1e (start_globals\<lparr>keyboard_status := no_latch\<lparr>rshift := True\<rparr>\<rparr>)) = 0x41 \<and>
   fst (KeyboardScancodeToKeycode 0x1e start_globals) = 0x61"
proof -
  have d: "(0x02::UCHAR) AND 0x80 = 0" "base_code 0x02 \<notin> modifier_codes" "(0x02::UCHAR) \<noteq> 0"
    and a: "(0x1e::UCHAR) AND 0x80 = 0" "base_code 0x1e \<notin> modifier_codes" "(0x1e::UCHAR) \<noteq> 0"
    by (simp_all add: base_code_def modifier_codes_def)
  show ?thesis
    using d
      key_down_shift_rules [OF d, of "start_globals\<lparr>keyboard_status := no_latch\<lparr>lshift := True\<rparr>\<rparr>"]
      key_down_shift_rules [OF d, of start_globals]
      key_down_shift_rules [OF a, of "start_globals\<lparr>keyboard_status := no_latch\<lparr>rshift := True\<rparr>\<rparr>"]
      key_down_shift_rules [OF a, of start_globals]
    by (simp add: start_globals_def no_latch_def sample_map_def shifted_digit_def vmm_toupper_def)
qed

text \<open>
  C7. Each of the bytes 0x00, 0xaa, 0xee, 0xfa, 0xfc, 0xfd, 0xfe, 0xff translates to 0,
  whatever the latches and the table are.
\<close>

theorem control_bytes_give_zero:
  assumes "c \<in> {0x00, 0xaa, 0xee, 0xfa, 0xfc, 0xfd, 0xfe, 0xff}"
  shows "fst (KeyboardScancodeToKeycode c g) = 0"
proof (cases "base_code c \<in> modifier_codes")
  case True
  then show ?thesis by (simp add: KeyboardScancodeToKeycode_def at_modifier)
next
  case False
  have "IS_SCANCODE_RELEASE c \<or> ignore_switch c"
    using assms by (auto simp: ignore_switch_def)
  then show ?thesis
    by (auto simp add: KeyboardScancodeToKeycode_def at_other [OF False])
qed

theorem control_bytes_give_zero_witness:
  "(0xfa::UCHAR) \<in> {0x00, 0xaa, 0xee, 0xfa, 0xfc, 0xfd, 0xfe, 0xff} \<and>
   fst (KeyboardScancodeToKeycode 0xfa (start_globals\<lparr>keyboard_status := no_latch\<lparr>lshift := True\<rparr>\<rparr>)) = 0"
  using control_bytes_give_zero
    [of "0xfa" "start_globals\<lparr>keyboard_status := no_latch\<lparr>lshift := True\<rparr>\<rparr>"]
  by simp

text \<open>
  C8. The translator never consults leftCtrl and leftAlt: from two states with the same
  table that agree on leftShift and rightShift, whatever their leftCtrl and leftAlt, every
  byte gives the same character and the same two shift latches afterwards.
\<close>

theorem ctrl_alt_not_consulted:
  assumes "lshift (keyboard_status g1) = lshift (keyboard_status g2)"
    and "rshift (keyboard_status g1) = rshift (keyboard_status g2)"
    and "scancodes_map g1 = scancodes_map g2"
  shows "fst (KeyboardScancodeToKeycode c g1) = fst (KeyboardScancodeToKeycode c g2) \<and>
         lshift (keyboard_status (snd (KeyboardScancodeToKeycode c g1))) =
           lshift (keyboard_status (snd (KeyboardScancodeToKeycode c g2))) \<and>
         rshift (keyboard_status (snd (KeyboardScancodeToKeycode c g1))) =
           rshift (keyboard_status (snd (KeyboardScancodeToKeycode c g2)))"
proof (cases "base_code c \<in> modifier_codes")
  case True
  with assms(1,2) show ?thesis
    by (auto simp: KeyboardScancodeToKeycode_def at_modifier latch_update_def)
next
  case False
  with assms show ?thesis
    by (simp add: KeyboardScancodeToKeycode_def at_other keycode_lookup_def)
qed

theorem ctrl_alt_not_consulted_witness:
  "fst (KeyboardScancodeToKeycode 0x02
          \<lparr>keyboard_status = \<lparr>lctrl = False, lshift = True, rshift = False, lalt = False\<rparr>,
           scancodes_map = sample_map\<rparr>) =
   fst (KeyboardScancodeToKeycode 0x02
          \<lparr>keyboard_status = \<lparr>lctrl = True, lshift = True, rshift = False, lalt = True\<rparr>,
           scancodes_map = sample_map\<rparr>)"
  using ctrl_alt_not_consulted
    [of "\<lparr>keyboard_status = \<lparr>lctrl = False, lshift = True, rshift = False, lalt = False\<rparr>,
          scancodes_map = sample_map\<rparr>"
        "\<lparr>keyboard_status = \<lparr>lctrl = True, lshift = True, rshift = False, lalt = True\<rparr>,
          scancodes_map = sample_map\<rparr>"
        "0x02"]
  by simp

text \<open>
  C10. Byte 0xaa is 0x2a with the release bit: translating it leaves at line 203, returns 0
  and sets the leftShift latch to false. Every byte with the release bit set leaves at line
  203 or line 207, so the second switch is never entered with 0xaa, 0xee, 0xfa, 0xfc, 0xfd,
  0xfe or 0xff; the return at line 223 is taken for byte 0x00 only.
\<close>

theorem control_labels_unreachable:
  "KeyboardScancodeToKeycode_at 0xaa g =
     (RET_MODIFIER, 0, g\<lparr>keyboard_status := (keyboard_status g)\<lparr>lshift := False\<rparr>\<rparr>) \<and>
   (IS_SCANCODE_RELEASE c \<longrightarrow>
      fst (KeyboardScancodeToKeycode_at c g) \<in> {RET_MODIFIER, RET_RELEASE}) \<and>
   (c \<in> {0xaa, 0xee, 0xfa, 0xfc, 0xfd, 0xfe, 0xff} \<longrightarrow>
      fst (KeyboardScancodeToKeycode_at c g) \<in> {RET_MODIFIER, RET_RELEASE}) \<and>
   (fst (KeyboardScancodeToKeycode_at c g) = RET_IGNORED \<longleftrightarrow> c = 0)"
proof -
  have "base_code 0xaa \<in> modifier_codes"
    by (simp add: base_code_def modifier_codes_def)
  then have "KeyboardScancodeToKeycode_at 0xaa g =
      (RET_MODIFIER, 0, g\<lparr>keyboard_status := (keyboard_status g)\<lparr>lshift := False\<rparr>\<rparr>)"
    by (simp add: at_modifier) (simp add: base_code_def latch_update_def)
  then show ?thesis
    using release_leaves_early ignore_labels_release ignored_only_zero by blast
qed

theorem control_labels_unreachable_witness:
  "IS_SCANCODE_RELEASE 0xfa \<and>
   fst (KeyboardScancodeToKeycode_at 0xfa start_globals) \<in> {RET_MODIFIER, RET_RELEASE} \<and>
   fst (KeyboardScancodeToKeycode_at 0xfa start_globals) \<noteq> RET_IGNORED"
  using control_labels_unreachable [of start_globals "0xfa"]
  by (simp add: IS_SCANCODE_RELEASE_def)

section \<open>The write primitive\<close>

lemma status_bits:
  "KEYB_STATUS_OBUFFER_FULL = 0x01" "KEYB_STATUS_IBUFFER_FULL = 0x02"
  "KEYB_STATUS_TRANSMIT_TIMEOUT = 0x20" "KEYB_STATUS_PARITY_ERROR = 0x80"
  by (simp_all add: KEYB_STATUS_OBUFFER_FULL_def KEYB_STATUS_IBUFFER_FULL_def
      KEYB_STATUS_TRANSMIT_TIMEOUT_def KEYB_STATUS_PARITY_ERROR_def)

lemma READ_PORT_UCHAR_status:
  "READ_PORT_UCHAR hw KEYB_REGISTER_STATUS s =
     (status_in hw (status_reads s), s\<lparr>status_reads := Suc (status_reads s)\<rparr>)"
  by (simp add: READ_PORT_UCHAR_def KEYB_REGISTER_STATUS_def)

lemma READ_PORT_UCHAR_data:
  "READ_PORT_UCHAR hw KEYB_REGISTER_DATA s =
     (data_in hw (data_reads s), s\<lparr>data_reads := Suc (data_reads s)\<rparr>)"
  by (simp add: READ_PORT_UCHAR_def KEYB_REGISTER_DATA_def)

lemma write_wait_clear_now:
  assumes "\<not> ibuffer_full hw (status_reads s)"
  shows "write_wait hw counter s = (counter, s\<lparr>status_reads := status_reads s + 1\<rparr>)"
  using assms
  by (subst write_wait.simps) (simp add: READ_PORT_UCHAR_status ibuffer_full_def)

lemma write_wait_busy_step:
  assumes "ibuffer_full hw (status_reads s)" and "counter \<noteq> 0"
  shows "write_wait hw counter s =
           write_wait hw (counter - 1) (s\<lparr>status_reads := status_reads s + 1, stalled := stalled s + 1\<rparr>)"
  using assms
  by (subst write_wait.simps)
    (simp add: READ_PORT_UCHAR_status ibuffer_full_def KeStallExecutionProcessor_def)

lemma write_wait_busy_last:
  assumes "ibuffer_full hw (status_reads s)"
  shows "write_wait hw 0 s = (- 1, s\<lparr>status_reads := status_reads s + 1\<rparr>)"
  using assms
  by (subst write_wait.simps) (simp add: READ_PORT_UCHAR_status ibuffer_full_def)

lemma write_wait_clears:
  assumes "\<forall>j<n. ibuffer_full hw (status_reads s + j)"
    and "\<not> ibuffer_full hw (status_reads s + n)"
    and "n \<le> unat counter"
  shows "write_wait hw counter s =
           (counter - of_nat n,
            s\<lparr>status_reads := status_reads s + n + 1, stalled := stalled s + n\<rparr>)"
  using assms
proof (induction n arbitrary: counter s)
  case 0
  then show ?case by (simp add: write_wait_clear_now)
next
  case (Suc n)
  let ?s = "s\<lparr>status_reads := status_reads s + 1, stalled := stalled s + 1\<rparr>"
  from Suc.prems(1) have now: "ibuffer_full hw (status_reads s)"
    by (metis add.right_neutral zero_less_Suc)
  from Suc.prems(3) have nz: "counter \<noteq> 0"
    by (auto simp: unat_eq_0)
  then have le: "n \<le> unat (counter - 1)"
    using Suc.prems(3) by (simp add: unat_minus_one)
  have busy: "\<forall>j<n. ibuffer_full hw (status_reads ?s + j)"
    using Suc.prems(1) by auto
  have clear: "\<not> ibuffer_full hw (status_reads ?s + n)"
    using Suc.prems(2) by simp
  have "write_wait hw counter s = write_wait hw (counter - 1) ?s"
    by (rule write_wait_busy_step [OF now nz])
  also have "\<dots> = (counter - 1 - of_nat n,
      ?s\<lparr>status_reads := status_reads ?s + n + 1, stalled := stalled ?s + n\<rparr>)"
    by (rule Suc.IH [OF busy clear le])
  also have "\<dots> = (counter - of_nat (Suc n),
      s\<lparr>status_reads := status_reads s + Suc n + 1, stalled := stalled s + Suc n\<rparr>)"
    by simp
  finally show ?case .
qed

lemma write_wait_never_clears:
  assumes "\<forall>j\<le>n. ibuffer_full hw (status_reads s + j)" and "unat counter = n"
  shows "write_wait hw counter s =
           (- 1, s\<lparr>status_reads := status_reads s + n + 1, stalled := stalled s + n\<rparr>)"
  using assms
proof (induction n arbitrary: counter s)
  case 0
  then show ?case by (simp add: write_wait_busy_last unat_eq_0)
next
  case (Suc n)
  let ?s = "s\<lparr>status_reads := status_reads s + 1, stalled := stalled s + 1\<rparr>"
  from Suc.prems(1) have now: "ibuffer_full hw (status_reads s)"
    by (metis add.right_neutral le0)
  from Suc.prems(2) have nz: "counter \<noteq> 0"
    by (auto simp: unat_eq_0)
  then have eq: "unat (counter - 1) = n"
    using Suc.prems(2) by (simp add: unat_minus_one)
  have busy: "\<forall>j\<le>n. ibuffer_full hw (status_reads ?s + j)"
    using Suc.prems(1) by auto
  have "write_wait hw counter s = write_wait hw (counter - 1) ?s"
    by (rule write_wait_busy_step [OF now nz])
  also have "\<dots> = (- 1,
      ?s\<lparr>status_reads := status_reads ?s + n + 1, stalled := stalled ?s + n\<rparr>)"
    by (rule Suc.IH [OF busy eq])
  also have "\<dots> = (- 1,
      s\<lparr>status_reads := status_reads s + Suc n + 1, stalled := stalled s + Suc n\<rparr>)"
    by simp
  finally show ?case .
qed

lemma unat_POLL: "unat POLL_STATUS_ITERATIONS = 12000"
  by (simp add: POLL_STATUS_ITERATIONS_def)

text \<open>
  The three outcomes of the write primitive, by the first read of the status port (counted
  from 0) that finds the input buffer clear: before the 12000th, at the 12000th, or not
  among the first 12001.
\<close>

lemma write_in_time:
  assumes "\<forall>j<n. ibuffer_full hw (status_reads s + j)"
    and "\<not> ibuffer_full hw (status_reads s + n)"
    and "n < 12000"
  shows "i8042WriteKeyboardData hw addr data s =
           (True, s\<lparr>status_reads := status_reads s + n + 1, stalled := stalled s + n,
                    port_writes := port_writes s @ [(addr, data)]\<rparr>)"
proof -
  from assms(3) have le: "n \<le> unat POLL_STATUS_ITERATIONS"
    by (simp add: unat_POLL)
  have "unat (of_nat n :: ULONG) = n"
    using le by (rule le_unat_uoi)
  then have "unat POLL_STATUS_ITERATIONS \<noteq> unat (of_nat n :: ULONG)"
    using assms(3) by (simp add: unat_POLL)
  then have nz: "POLL_STATUS_ITERATIONS - of_nat n \<noteq> 0"
    by auto
  show ?thesis
    using nz
    by (simp add: i8042WriteKeyboardData_def write_wait_clears [OF assms(1,2) le]
        WRITE_PORT_UCHAR_def)
qed

lemma write_at_last_test:
  assumes "\<forall>j<12000. ibuffer_full hw (status_reads s + j)"
    and "\<not> ibuffer_full hw (status_reads s + 12000)"
  shows "i8042WriteKeyboardData hw addr data s =
           (False, s\<lparr>status_reads := status_reads s + 12001, stalled := stalled s + 12000\<rparr>)"
proof -
  have le: "12000 \<le> unat POLL_STATUS_ITERATIONS"
    by (simp add: unat_POLL)
  have z: "POLL_STATUS_ITERATIONS - of_nat 12000 = 0"
    by (simp add: POLL_STATUS_ITERATIONS_def)
  show ?thesis
    by (simp add: i8042WriteKeyboardData_def write_wait_clears [OF assms le] z
        del: of_nat_numeral)
qed

lemma write_stuck:
  assumes "\<forall>j\<le>12000. ibuffer_full hw (status_reads s + j)"
  shows "i8042WriteKeyboardData hw addr data s =
           (True, s\<lparr>status_reads := status_reads s + 12001, stalled := stalled s + 12000,
                    port_writes := port_writes s @ [(addr, data)]\<rparr>)"
  by (simp add: i8042WriteKeyboardData_def write_wait_never_clears [OF assms unat_POLL]
      WRITE_PORT_UCHAR_def)

section \<open>The read primitive and the polling loop\<close>

lemma pass_status_shift: "pass_status hw (Suc (Suc i)) j = pass_status hw i (Suc j)"
  by (simp add: pass_status_def)

lemma data_taken_0: "data_taken hw i 0 = 0"
  by (simp add: data_taken_def)

lemma data_taken_Suc:
  "data_taken hw i (Suc k) =
     (if obuffer_full (pass_status hw i 0) then 1 else 0) + data_taken hw (i + 2) k"
proof -
  have "[0..<Suc k] = 0 # map Suc [0..<k]"
    by (simp add: upt_conv_Cons map_Suc_upt del: upt_Suc)
  then show ?thesis
    by (simp add: data_taken_def filter_map comp_def pass_status_shift del: upt_Suc)
qed

lemma read_data_hit:
  assumes "read_succeeds (status_in hw (status_reads s))"
  shows "i8042ReadKeyboardData hw pc pisMouse s =
           (STATUS_SUCCESS, data_in hw (data_reads s), mouse_flag (status_in hw (status_reads s)),
            s\<lparr>status_reads := status_reads s + 1, data_reads := data_reads s + 1\<rparr>)"
  using assms
  by (simp add: i8042ReadKeyboardData_def READ_PORT_UCHAR_status READ_PORT_UCHAR_data read_succeeds_def mouse_flag_def)

lemma read_data_miss:
  assumes "\<not> read_succeeds (status_in hw (status_reads s))"
  shows "i8042ReadKeyboardData hw pc pisMouse s =
           (STATUS_UNSUCCESSFUL,
            (if obuffer_full (status_in hw (status_reads s)) then data_in hw (data_reads s) else pc),
            pisMouse,
            s\<lparr>status_reads := status_reads s + 1,
              data_reads := data_reads s + (if obuffer_full (status_in hw (status_reads s)) then 1 else 0)\<rparr>)"
  using assms
  by (auto simp: i8042ReadKeyboardData_def READ_PORT_UCHAR_status READ_PORT_UCHAR_data read_succeeds_def obuffer_full_def)

lemma read_poll_zero: "read_poll hw 0 scancode pisMouse s = (0, scancode, pisMouse, s)"
  by (subst read_poll.simps) simp

lemma read_poll_hit:
  assumes "counter \<noteq> 0" and "read_succeeds (pass_status hw (status_reads s) 0)"
  shows "read_poll hw counter scancode pisMouse s =
           (counter, data_in hw (data_reads s), mouse_flag (pass_status hw (status_reads s) 0),
            s\<lparr>status_reads := status_reads s + 2, data_reads := data_reads s + 1\<rparr>)"
proof -
  let ?s1 = "s\<lparr>status_reads := Suc (status_reads s)\<rparr>"
  have first: "READ_PORT_UCHAR hw KEYB_REGISTER_STATUS s = (status_in hw (status_reads s), ?s1)"
    by (rule READ_PORT_UCHAR_status)
  have "read_succeeds (status_in hw (status_reads ?s1))"
    using assms(2) by (simp add: pass_status_def)
  note hit = read_data_hit [OF this]
  show ?thesis
    using assms(1)
    by (subst read_poll.simps) (simp add: first hit NT_SUCCESS_def pass_status_def)
qed

lemma read_poll_miss:
  assumes "counter \<noteq> 0" and "\<not> read_succeeds (pass_status hw (status_reads s) 0)"
  shows "read_poll hw counter scancode pisMouse s =
           read_poll hw (counter - 1)
             (if obuffer_full (pass_status hw (status_reads s) 0) then data_in hw (data_reads s)
              else scancode)
             pisMouse
             (s\<lparr>status_reads := status_reads s + 2,
                data_reads := data_reads s +
                  (if obuffer_full (pass_status hw (status_reads s) 0) then 1 else 0),
                stalled := stalled s + 1\<rparr>)"
proof -
  let ?s1 = "s\<lparr>status_reads := Suc (status_reads s)\<rparr>"
  have first: "READ_PORT_UCHAR hw KEYB_REGISTER_STATUS s = (status_in hw (status_reads s), ?s1)"
    by (rule READ_PORT_UCHAR_status)
  have "\<not> read_succeeds (status_in hw (status_reads ?s1))"
    using assms(2) by (simp add: pass_status_def)
  note miss = read_data_miss [OF this]
  show ?thesis
    using assms(1)
    by (subst read_poll.simps)
      (simp add: first miss NT_SUCCESS_def pass_status_def KeStallExecutionProcessor_def)
qed

lemma read_poll_timeout:
  assumes "\<forall>j<n. \<not> read_succeeds (pass_status hw (status_reads s) j)" and "unat counter = n"
  shows "fst (read_poll hw counter scancode pisMouse s) = 0 \<and>
         snd (snd (read_poll hw counter scancode pisMouse s)) =
           (pisMouse, s\<lparr>status_reads := status_reads s + 2 * n,
                        data_reads := data_reads s + data_taken hw (status_reads s) n,
                        stalled := stalled s + n\<rparr>)"
  using assms
proof (induction n arbitrary: counter scancode s)
  case 0
  then show ?case by (simp add: unat_eq_0 read_poll_zero data_taken_0)
next
  case (Suc n)
  let ?o = "obuffer_full (pass_status hw (status_reads s) 0)"
  let ?s = "s\<lparr>status_reads := status_reads s + 2,
      data_reads := data_reads s + (if ?o then 1 else 0), stalled := stalled s + 1\<rparr>"
  let ?sc = "if ?o then data_in hw (data_reads s) else scancode"
  from Suc.prems(2) have nz: "counter \<noteq> 0"
    by (auto simp: unat_eq_0)
  then have eq: "unat (counter - 1) = n"
    using Suc.prems(2) by (simp add: unat_minus_one)
  from Suc.prems(1) have now: "\<not> read_succeeds (pass_status hw (status_reads s) 0)"
    by simp
  have later: "\<forall>j<n. \<not> read_succeeds (pass_status hw (status_reads ?s) j)"
    using Suc.prems(1) by (simp add: pass_status_shift)
  have step: "read_poll hw counter scancode pisMouse s = read_poll hw (counter - 1) ?sc pisMouse ?s"
    by (rule read_poll_miss [OF nz now])
  show ?case
    unfolding step using Suc.IH [OF later eq, of ?sc]
    by (simp add: data_taken_Suc)
qed

lemma read_poll_first_hit:
  assumes "\<forall>j<k. \<not> read_succeeds (pass_status hw (status_reads s) j)"
    and "read_succeeds (pass_status hw (status_reads s) k)"
    and "k < unat counter"
  shows "fst (read_poll hw counter scancode pisMouse s) \<noteq> 0 \<and>
         snd (read_poll hw counter scancode pisMouse s) =
           (data_in hw (data_reads s + data_taken hw (status_reads s) k),
            mouse_flag (pass_status hw (status_reads s) k),
            s\<lparr>status_reads := status_reads s + 2 * k + 2,
              data_reads := data_reads s + data_taken hw (status_reads s) k + 1,
              stalled := stalled s + k\<rparr>)"
  using assms
proof (induction k arbitrary: counter scancode s)
  case 0
  from "0.prems"(3) have nz: "counter \<noteq> 0"
    by (auto simp: unat_eq_0)
  show ?case
    using nz by (simp add: read_poll_hit [OF nz "0.prems"(2)] data_taken_0)
next
  case (Suc k)
  let ?o = "obuffer_full (pass_status hw (status_reads s) 0)"
  let ?s = "s\<lparr>status_reads := status_reads s + 2,
      data_reads := data_reads s + (if ?o then 1 else 0), stalled := stalled s + 1\<rparr>"
  let ?sc = "if ?o then data_in hw (data_reads s) else scancode"
  from Suc.prems(3) have nz: "counter \<noteq> 0"
    by (auto simp: unat_eq_0)
  then have lt: "k < unat (counter - 1)"
    using Suc.prems(3) by (simp add: unat_minus_one)
  from Suc.prems(1) have now: "\<not> read_succeeds (pass_status hw (status_reads s) 0)"
    by simp
  have later: "\<forall>j<k. \<not> read_succeeds (pass_status hw (status_reads ?s) j)"
    using Suc.prems(1) by (simp add: pass_status_shift)
  have hit: "read_succeeds (pass_status hw (status_reads ?s) k)"
    using Suc.prems(2) by (simp add: pass_status_shift)
  have step: "read_poll hw counter scancode pisMouse s = read_poll hw (counter - 1) ?sc pisMouse ?s"
    by (rule read_poll_miss [OF nz now])
  show ?case
    unfolding step using Suc.IH [OF later hit lt, of ?sc]
    by (simp add: data_taken_Suc pass_status_shift)
qed

lemma read_keystroke_by_loop:
  "KeyboardReadKeystroke hw pc unget pisMouse scancode0 s =
     (let r = read_poll hw POLL_STATUS_ITERATIONS scancode0 pisMouse s in
      if fst r = 0 then (STATUS_UNSUCCESSFUL, pc, fst (snd (snd r)), snd (snd (snd r)))
      else (STATUS_SUCCESS, fst (snd r), fst (snd (snd r)),
            if unget \<noteq> 0 then unget_replay hw (fst (snd r)) (snd (snd (snd r)))
            else snd (snd (snd r))))"
  by (simp add: KeyboardReadKeystroke_def case_prod_unfold Let_def)

lemma read_keystroke_all_miss:
  assumes "\<forall>j<12000. \<not> read_succeeds (pass_status hw (status_reads s) j)"
  shows "KeyboardReadKeystroke hw pc unget pisMouse scancode0 s =
           (STATUS_UNSUCCESSFUL, pc, pisMouse,
            s\<lparr>status_reads := status_reads s + 2 * 12000,
              data_reads := data_reads s + data_taken hw (status_reads s) 12000,
              stalled := stalled s + 12000\<rparr>)"
  using read_poll_timeout [OF assms unat_POLL, of scancode0 pisMouse]
  by (simp add: read_keystroke_by_loop Let_def)

lemma read_keystroke_first_hit:
  assumes "k < 12000"
    and "\<forall>j<k. \<not> read_succeeds (pass_status hw (status_reads s) j)"
    and "read_succeeds (pass_status hw (status_reads s) k)"
  shows "KeyboardReadKeystroke hw pc unget pisMouse scancode0 s =
           (STATUS_SUCCESS,
            data_in hw (data_reads s + data_taken hw (status_reads s) k),
            mouse_flag (pass_status hw (status_reads s) k),
            if unget \<noteq> 0
            then unget_replay hw (data_in hw (data_reads s + data_taken hw (status_reads s) k))
                   (s\<lparr>status_reads := status_reads s + 2 * k + 2,
                      data_reads := data_reads s + data_taken hw (status_reads s) k + 1,
                      stalled := stalled s + k\<rparr>)
            else s\<lparr>status_reads := status_reads s + 2 * k + 2,
                   data_reads := data_reads s + data_taken hw (status_reads s) k + 1,
                   stalled := stalled s + k\<rparr>)"
proof -
  from assms(1) have lt: "k < unat POLL_STATUS_ITERATIONS"
    by (simp add: unat_POLL)
  show ?thesis
    using read_poll_first_hit [OF assms(2,3) lt, of scancode0 pisMouse]
    by (simp add: read_keystroke_by_loop Let_def)
qed

lemma read_keystroke_some_hit:
  assumes "j < 12000" and "read_succeeds (pass_status hw (status_reads s) j)"
  shows "fst (KeyboardReadKeystroke hw pc unget pisMouse scancode0 s) = STATUS_SUCCESS"
proof -
  define k where "k = (LEAST n. read_succeeds (pass_status hw (status_reads s) n))"
  have hit: "read_succeeds (pass_status hw (status_reads s) k)"
    unfolding k_def using assms(2) by (rule LeastI)
  have "k \<le> j"
    unfolding k_def using assms(2) by (rule Least_le)
  with assms(1) have lt: "k < 12000" by simp
  have before: "\<forall>n<k. \<not> read_succeeds (pass_status hw (status_reads s) n)"
    unfolding k_def using not_less_Least by blast
  show ?thesis
    by (simp add: read_keystroke_first_hit [OF lt before hit])
qed

text \<open>
  The write primitive does return \<open>FALSE\<close> (when the input buffer clears exactly at the
  12001st read), and \<open>KeyboardSetMouse\<close> reports success then as well, with nothing written.
\<close>

lemma KeyboardSetMouse_write_failed:
  assumes "\<forall>j<12000. ibuffer_full hw (status_reads s + j)"
    and "\<not> ibuffer_full hw (status_reads s + 12000)"
  shows "\<not> fst (i8042WriteKeyboardData hw KEYB_REGISTER_COMMAND cmd s)"
    and "KeyboardSetMouse hw enabled s =
           (STATUS_SUCCESS, s\<lparr>status_reads := status_reads s + 12001, stalled := stalled s + 12000\<rparr>)"
  by (simp_all add: KeyboardSetMouse_def write_at_last_test [OF assms])

section \<open>The claims about the controller\<close>

text \<open>
  C1. The write primitive is claimed to return failure, without writing, when the
  input-buffer-full bit never clears. On a controller whose status port always reads 0x02
  the loop stalls 12000 times; the 12001st test of \<open>counter--\<close> finds 0 and leaves the loop,
  but the decrement wraps the counter to 0xffffffff, so the test of line 121 succeeds: the
  byte is written and \<open>TRUE\<close> is returned, for every register and byte.
\<close>

theorem i8042WriteKeyboardData_stuck_writes:
  "i8042WriteKeyboardData stuck_controller addr data io_start =
     (True, \<lparr>status_reads = 12001, data_reads = 0, stalled = 12000,
             port_writes = [(addr, data)]\<rparr>)"
proof -
  have "\<forall>j\<le>12000. ibuffer_full stuck_controller (status_reads io_start + j)"
    by (simp add: ibuffer_full_def stuck_controller_def KEYB_STATUS_IBUFFER_FULL_def)
  then show ?thesis
    by (simp add: write_stuck io_start_def)
qed

text \<open>
  C2. Every invocation of \<open>KeyboardInit\<close> returns success and leaves all four latches
  (leftCtrl, leftShift, rightShift, leftAlt) false, so an invocation after any sequence of
  translations resets modifier tracking; a second invocation changes nothing.
\<close>

theorem KeyboardInit_resets_latches:
  "fst (KeyboardInit tbl g) = STATUS_SUCCESS \<and>
   keyboard_status (snd (KeyboardInit tbl g)) =
     \<lparr>lctrl = False, lshift = False, rshift = False, lalt = False\<rparr> \<and>
   keyboard_status (snd (KeyboardInit tbl (translate_all cs g))) =
     \<lparr>lctrl = False, lshift = False, rshift = False, lalt = False\<rparr> \<and>
   KeyboardInit tbl (snd (KeyboardInit tbl g)) = KeyboardInit tbl g"
  by (simp add: KeyboardInit_def init_scancodes_map_def)

text \<open>
  C6. \<open>KeyboardReadKeystroke\<close> returns the timeout failure exactly when none of the 12000
  passes finds the output buffer full with the parity bit clear; it has then stalled 12000
  times and written neither \<open>*pc\<close> nor \<open>*pisMouse\<close>. When pass \<open>k\<close> is the first that
  succeeds, the loop is left after that pass (\<open>k\<close> stalls, \<open>2 * k + 2\<close> reads of the status
  port) and the call returns success with the byte read from the data port in that pass and
  the mouse flag of its status byte, after the echo when \<open>unget\<close> is set.
\<close>

theorem KeyboardReadKeystroke_timeout_iff:
  "(fst (KeyboardReadKeystroke hw pc unget pisMouse scancode0 s) = STATUS_UNSUCCESSFUL \<longleftrightarrow>
      (\<forall>j<12000. \<not> read_succeeds (pass_status hw (status_reads s) j))) \<and>
   ((\<forall>j<12000. \<not> read_succeeds (pass_status hw (status_reads s) j)) \<longrightarrow>
      KeyboardReadKeystroke hw pc unget pisMouse scancode0 s =
        (STATUS_UNSUCCESSFUL, pc, pisMouse,
         s\<lparr>status_reads := status_reads s + 2 * 12000,
           data_reads := data_reads s + data_taken hw (status_reads s) 12000,
           stalled := stalled s + 12000\<rparr>)) \<and>
   (k < 12000 \<and> (\<forall>j<k. \<not> read_succeeds (pass_status hw (status_reads s) j)) \<and>
    read_succeeds (pass_status hw (status_reads s) k) \<longrightarrow>
      (let byte = data_in hw (data_reads s + data_taken hw (status_reads s) k);
           left = s\<lparr>status_reads := status_reads s + 2 * k + 2,
                    data_reads := data_reads s + data_taken hw (status_reads s) k + 1,
                    stalled := stalled s + k\<rparr>
       in snd (snd (snd (read_poll hw POLL_STATUS_ITERATIONS scancode0 pisMouse s))) = left \<and>
          KeyboardReadKeystroke hw pc unget pisMouse scancode0 s =
            (STATUS_SUCCESS, byte, mouse_flag (pass_status hw (status_reads s) k),
             if unget \<noteq> 0 then unget_replay hw byte left else left)))"
proof (intro conjI impI)
  show "fst (KeyboardReadKeystroke hw pc unget pisMouse scancode0 s) = STATUS_UNSUCCESSFUL \<longleftrightarrow>
      (\<forall>j<12000. \<not> read_succeeds (pass_status hw (status_reads s) j))"
  proof
    assume failed: "fst (KeyboardReadKeystroke hw pc unget pisMouse scancode0 s) = STATUS_UNSUCCESSFUL"
    show "\<forall>j<12000. \<not> read_succeeds (pass_status hw (status_reads s) j)"
    proof (intro allI impI notI)
      fix j :: nat
      assume "j < 12000" and "read_succeeds (pass_status hw (status_reads s) j)"
      then have "fst (KeyboardReadKeystroke hw pc unget pisMouse scancode0 s) = STATUS_SUCCESS"
        by (rule read_keystroke_some_hit)
      with failed show False by simp
    qed
  next
    assume "\<forall>j<12000. \<not> read_succeeds (pass_status hw (status_reads s) j)"
    then show "fst (KeyboardReadKeystroke hw pc unget pisMouse scancode0 s) = STATUS_UNSUCCESSFUL"
      by (simp add: read_keystroke_all_miss)
  qed
next
  assume "\<forall>j<12000. \<not> read_succeeds (pass_status hw (status_reads s) j)"
  then show "KeyboardReadKeystroke hw pc unget pisMouse scancode0 s =
        (STATUS_UNSUCCESSFUL, pc, pisMouse,
         s\<lparr>status_reads := status_reads s + 2 * 12000,
           data_reads := data_reads s + data_taken hw (status_reads s) 12000,
           stalled := stalled s + 12000\<rparr>)"
    by (rule read_keystroke_all_miss)
next
  assume a: "k < 12000 \<and> (\<forall>j<k. \<not> read_succeeds (pass_status hw (status_reads s) j)) \<and>
    read_succeeds (pass_status hw (status_reads s) k)"
  then have lt: "k < 12000"
    and before: "\<forall>j<k. \<not> read_succeeds (pass_status hw (status_reads s) j)"
    and hit: "read_succeeds (pass_status hw (status_reads s) k)"
    by simp_all
  from lt have lt': "k < unat POLL_STATUS_ITERATIONS"
    by (simp add: unat_POLL)
  show "let byte = data_in hw (data_reads s + data_taken hw (status_reads s) k);
           left = s\<lparr>status_reads := status_reads s + 2 * k + 2,
                    data_reads := data_reads s + data_taken hw (status_reads s) k + 1,
                    stalled := stalled s + k\<rparr>
       in snd (snd (snd (read_poll hw POLL_STATUS_ITERATIONS scancode0 pisMouse s))) = left \<and>
          KeyboardReadKeystroke hw pc unget pisMouse scancode0 s =
            (STATUS_SUCCESS, byte, mouse_flag (pass_status hw (status_reads s) k),
             if unget \<noteq> 0 then unget_replay hw byte left else left)"
    unfolding Let_def
    using read_poll_first_hit [OF before hit lt', of scancode0 pisMouse]
      read_keystroke_first_hit [OF lt before hit, of pc unget pisMouse scancode0]
    by simp
qed

theorem KeyboardReadKeystroke_timeout_iff_witness:
  "KeyboardReadKeystroke busy_controller 0 0 False 0 io_start =
     (STATUS_SUCCESS, 0x1e, True,
      \<lparr>status_reads = 6, data_reads = 2, stalled = 2, port_writes = []\<rparr>) \<and>
   KeyboardReadKeystroke silent_controller 0x55 0 False 0 io_start =
     (STATUS_UNSUCCESSFUL, 0x55, False,
      \<lparr>status_reads = 24000, data_reads = 0, stalled = 12000, port_writes = []\<rparr>)"
proof -
  have miss0: "\<not> read_succeeds (pass_status busy_controller (status_reads io_start) 0)"
    and miss1: "\<not> read_succeeds (pass_status busy_controller (status_reads io_start) (Suc 0))"
    and hit: "read_succeeds (pass_status busy_controller (status_reads io_start) 2)"
    by (simp_all add: read_succeeds_def pass_status_def busy_controller_def io_start_def
        status_bits)
  have before: "\<forall>j<2. \<not> read_succeeds (pass_status busy_controller (status_reads io_start) j)"
    using miss0 miss1 by (auto dest: less_2_cases)
  have flag: "mouse_flag (pass_status busy_controller (status_reads io_start) 2)"
    by (simp add: mouse_flag_def pass_status_def busy_controller_def io_start_def status_bits)
  have taken: "data_taken busy_controller (status_reads io_start) 2 = 1"
    by (simp add: data_taken_def numeral_2_eq_2 obuffer_full_def pass_status_def
        busy_controller_def io_start_def status_bits)
  have never: "\<forall>j<12000. \<not> read_succeeds (pass_status silent_controller (status_reads io_start) j)"
    by (simp add: read_succeeds_def pass_status_def silent_controller_def)
  have none: "data_taken silent_controller (status_reads io_start) 12000 = 0"
    by (simp add: data_taken_def obuffer_full_def pass_status_def silent_controller_def)
  show ?thesis
    using before hit flag taken never none
      KeyboardReadKeystroke_timeout_iff [of busy_controller 0 0 False 0 io_start 2]
      KeyboardReadKeystroke_timeout_iff [of silent_controller "0x55" 0 False 0 io_start 0]
    by (simp add: Let_def io_start_def busy_controller_def)
qed

text \<open>
  C9. \<open>KeyboardSetMouse\<close> returns success for either value of \<open>enabled\<close> and every
  controller: the result of the one call of the write primitive it makes (command 0xa8 or
  0xa7 to the command register) is dropped.
\<close>

theorem KeyboardSetMouse_success:
  "fst (KeyboardSetMouse hw enabled s) = STATUS_SUCCESS \<and>
   snd (KeyboardSetMouse hw enabled s) =
     snd (i8042WriteKeyboardData hw KEYB_REGISTER_COMMAND (if enabled then 0xa8 else 0xa7) s)"
  by (simp add: KeyboardSetMouse_def KEYB_COMMAND_ENABLE_MOUSE_def KEYB_COMMAND_DISABLE_MOUSE_def)

end
